theory Spec2Isabelle
  imports Main "HOL-Library.Sublist"
begin

section \<open>Streaming chat-completion consumer: \<^verbatim>\<open>sdk/nexent/core/models/openai_llm.py\<close>\<close>

subsection \<open>Data model\<close>

text \<open>
  A Python exception, seen through the two observations the code makes of it:
  \<^verbatim>\<open>type(e).__name__\<close> and \<^verbatim>\<open>str(e)\<close>. The faults of \<^verbatim>\<open>__call__\<close> are instances of
  \<^verbatim>\<open>Exception\<close>, which the clause of line 138 catches; for the probe, the type \<open>raised\<close>
  below tells them from the exceptions outside \<^verbatim>\<open>Exception\<close>.
\<close>

datatype exn = Exn (exn_type: string) (exn_str: string)

text \<open>
  \<^verbatim>\<open>chunk.choices[0].delta\<close>: \<^verbatim>\<open>content\<close>, \<^verbatim>\<open>reasoning_content\<close> (read with
  \<^verbatim>\<open>getattr(..., None)\<close>, so a missing attribute and a null are both \<open>None\<close>) and \<^verbatim>\<open>role\<close>.
\<close>

record delta =
  content :: "string option"
  reasoning_content :: "string option"
  role :: "string option"

record choice =
  delta :: delta

text \<open>
  \<^verbatim>\<open>chunk.usage\<close>. The value of an attribute is an integer or \<^verbatim>\<open>None\<close> (what the
  client library stores for a field that the server left out or sent as null). For
  \<^verbatim>\<open>completion_tokens\<close> the code also asks \<^verbatim>\<open>hasattr\<close>: \<open>NoAttribute\<close> is the object
  without that attribute, \<open>Attribute v\<close> the object whose attribute holds \<open>v\<close>.
\<close>

datatype attribute = NoAttribute | Attribute "int option"

record usage =
  prompt_tokens :: "int option"
  completion_tokens :: attribute
  total_tokens :: "int option"

record chunk =
  choices :: "choice list"
  usage :: "usage option"

text \<open>
  What \<^verbatim>\<open>self.client.chat.completions.create(stream=True, ...)\<close> gives: the request
  (line 50, outside the \<^verbatim>\<open>try\<close>) raises, or it returns an iterator that yields the chunks and
  then either stops or raises.
\<close>

datatype transport = CreateFails exn | Stream "chunk list" "exn option"

text \<open>The model object, with the two attributes that \<^verbatim>\<open>__call__\<close> writes.\<close>

record model =
  model_id :: string
  last_input_token_count :: "int option"
  last_output_token_count :: "int option"

text \<open>
  Modelled from the spec: the monitoring manager, the observer and the token tracker are
  defined outside this file; the spec describes them as sinks ("recording a metric never
  raises"), so a call on one of them is an entry of a log and nothing else.

  The entries are the calls made on the three collaborators, in the order in which they are
  made. A wall-clock difference is kept as \<open>AElapsed\<close>. \<open>SetSpanAttributes\<close> keeps the model
  id and the message count of \<^verbatim>\<open>set_span_attributes\<close>; the sampling parameters are handed
  through unchanged.
\<close>

datatype attr = AStr string | AInt int | AElapsed

datatype event =
    SpanEvent string "(string \<times> attr) list"
  | SetSpanAttributes string nat
  | SetModeThinking
  | AddModelReasoningContent string
  | AddModelNewToken string
  | FlushRemainingTokens
  | RecordFirstToken
  | RecordToken string
  | RecordCompletion "int option" "int option"

text \<open>The local variables of one invocation, together with the calls made so far.\<close>

record call_state =
  chunk_list :: "chunk list"
  token_join :: "string list"
  role_var :: "string option"
  first_token_received :: bool
  calls :: "event list"

record chat_message =
  msg_role :: string
  msg_content :: string
  raw :: "chunk list"

record result =
  outcome :: "exn + chat_message"
  model_after :: model
  trace :: "event list"

subsection \<open>The stream-consumption loop (lines 64--97)\<close>

definition emit :: "event \<Rightarrow> call_state \<Rightarrow> call_state" where
  "emit ev s = s\<lparr>calls := calls s @ [ev]\<rparr>"

definition interrupted :: exn where
  "interrupted = Exn ''RuntimeError'' ''Model is interrupted by stop event''"

definition index_error :: exn where
  "index_error = Exn ''IndexError'' ''list index out of range''"

text \<open>
  \<^verbatim>\<open>if token_tracker and not first_token_received: token_tracker.record_first_token();
  first_token_received = True\<close>
\<close>

definition record_first :: "bool \<Rightarrow> call_state \<Rightarrow> call_state" where
  "record_first tracked s =
     (if tracked \<and> \<not> first_token_received s
      then (emit RecordFirstToken s)\<lparr>first_token_received := True\<rparr>
      else s)"

definition handle_reasoning :: "bool \<Rightarrow> delta \<Rightarrow> call_state \<Rightarrow> call_state" where
  "handle_reasoning tracked d s =
     (case reasoning_content d of
        None \<Rightarrow> s
      | Some r \<Rightarrow> record_first tracked (emit (AddModelReasoningContent r) s))"

definition handle_token :: "bool \<Rightarrow> delta \<Rightarrow> call_state \<Rightarrow> call_state" where
  "handle_token tracked d s =
     (case content d of
        None \<Rightarrow> s
      | Some new_token \<Rightarrow>
          let s1 = record_first tracked s;
              s2 = (if tracked then emit (RecordToken new_token) s1 else s1);
              s3 = emit (AddModelNewToken new_token) s2
          in s3\<lparr>token_join := token_join s3 @ [new_token], role_var := role d\<rparr>)"

text \<open>
  One iteration. \<open>stop_set\<close> is what \<^verbatim>\<open>self.stop_event.is_set()\<close> answers in this
  iteration. The result is the exception raised, if any, and the state at that point.
\<close>

definition loop_body :: "bool \<Rightarrow> bool \<Rightarrow> chunk \<Rightarrow> call_state \<Rightarrow> exn option \<times> call_state" where
  "loop_body tracked stop_set c s =
     (case choices c of
        [] \<Rightarrow> (Some index_error, s)
      | ch # _ \<Rightarrow>
          let s1 = handle_reasoning tracked (delta ch) s;
              s2 = handle_token tracked (delta ch) s1;
              s3 = s2\<lparr>chunk_list := chunk_list s2 @ [c]\<rparr>
          in if stop_set
             then (Some interrupted,
                   if tracked
                   then emit (SpanEvent ''model_stopped'' [(''reason'', AStr ''stop_event_set'')]) s3
                   else s3)
             else (None, s3))"

text \<open>
  The loop over the chunks that arrive. \<open>stop_event i\<close> is the answer of the poll made in
  iteration \<open>i\<close> (counted from 0): the event is set and cleared by other threads.
\<close>

fun consume :: "bool \<Rightarrow> (nat \<Rightarrow> bool) \<Rightarrow> nat \<Rightarrow> chunk list \<Rightarrow> call_state \<Rightarrow> exn option \<times> call_state" where
  "consume tracked stop_event i [] s = (None, s)"
| "consume tracked stop_event i (c # cs) s =
     (case loop_body tracked (stop_event i) c s of
        (Some e, s') \<Rightarrow> (Some e, s')
      | (None, s') \<Rightarrow> consume tracked stop_event (Suc i) cs s')"

text \<open>The whole \<^verbatim>\<open>for\<close> statement: after the last chunk the iterator stops or raises.\<close>

definition for_loop :: "bool \<Rightarrow> (nat \<Rightarrow> bool) \<Rightarrow> chunk list \<Rightarrow> exn option \<Rightarrow> call_state \<Rightarrow> exn option \<times> call_state" where
  "for_loop tracked stop_event cs fault s =
     (case consume tracked stop_event 0 cs s of
        (Some e, s') \<Rightarrow> (Some e, s')
      | (None, s') \<Rightarrow> (fault, s'))"

subsection \<open>The handler (lines 138--145)\<close>

text \<open>Python's \<^verbatim>\<open>sub in s\<close> on strings.\<close>

primrec str_contains :: "string \<Rightarrow> string \<Rightarrow> bool" where
  "str_contains sub [] = (sub = [])"
| "str_contains sub (c # cs) = (prefix sub (c # cs) \<or> str_contains sub cs)"

definition reraised :: "exn \<Rightarrow> exn" where
  "reraised e =
     (if str_contains ''context_length_exceeded'' (exn_str e)
      then Exn ''ValueError'' (''Token limit exceeded: '' @ exn_str e)
      else e)"

definition except_handler :: "bool \<Rightarrow> exn \<Rightarrow> model \<Rightarrow> event list \<Rightarrow> result" where
  "except_handler tracked e self lg =
     \<lparr>outcome = Inl (reraised e),
      model_after = self,
      trace = (if tracked
               then lg @ [SpanEvent ''error_occurred''
                            [(''error_type'', AStr (exn_type e)),
                             (''error_message'', AStr (exn_str e))]]
               else lg)\<rparr>"

subsection \<open>Finalisation (lines 99--136)\<close>

text \<open>
  Lines 104--115: the two counts, as the Python values that are written to the model and
  handed to \<^verbatim>\<open>record_completion\<close>.
\<close>

definition extract_usage :: "chunk list \<Rightarrow> int option \<times> int option" where
  "extract_usage cl =
     (case (if cl = [] then None else usage (last cl)) of
        None \<Rightarrow> (Some 0, Some 0)
      | Some u \<Rightarrow>
          (prompt_tokens u,
           case completion_tokens u of Attribute v \<Rightarrow> v | NoAttribute \<Rightarrow> total_tokens u))"

definition MessageRole_ASSISTANT :: string where
  "MessageRole_ASSISTANT = ''assistant''"

text \<open>
  \<open>construct\<close> stands for the library constructors of lines 130--132
  (\<^verbatim>\<open>ChatCompletionMessage(role=..., content=...)\<close>, \<^verbatim>\<open>model_dump\<close>,
  \<^verbatim>\<open>ChatMessage.from_dict\<close>), whose declarations are not part of the source: given the role
  and the content it answers the exception they raise, if any.
\<close>

definition finalize :: "bool \<Rightarrow> model \<Rightarrow> chunk list \<Rightarrow> (string \<Rightarrow> string \<Rightarrow> exn option) \<Rightarrow> call_state \<Rightarrow> result" where
  "finalize tracked self current_request construct s =
     (let s1 = emit FlushRemainingTokens s;
          model_output = concat (token_join s1);
          (input_tokens, output_tokens) = extract_usage (chunk_list s1);
          self' = self\<lparr>last_input_token_count := input_tokens,
                       last_output_token_count := output_tokens\<rparr>;
          s2 = (if tracked then emit (RecordCompletion input_tokens output_tokens) s1 else s1);
          s3 = (if tracked
                then emit (SpanEvent ''completion_finished''
                             [(''total_duration'', AElapsed),
                              (''output_length'', AInt (int (length model_output))),
                              (''chunk_count'', AInt (int (length (chunk_list s1))))]) s2
                else s2);
          r = (case role_var s3 of
                 None \<Rightarrow> ''assistant''
               | Some r' \<Rightarrow> if r' = [] then ''assistant'' else r')
      in case construct r model_output of
           Some e \<Rightarrow> except_handler tracked e self' (calls s3)
         | None \<Rightarrow>
             let message = \<lparr>msg_role = r, msg_content = model_output, raw = current_request\<rparr>
             in \<lparr>outcome = Inr (message\<lparr>msg_role := MessageRole_ASSISTANT\<rparr>),
                 model_after = self',
                 trace = calls s3\<rparr>)"

subsection \<open>\<^verbatim>\<open>OpenAIModel.__call__\<close>\<close>

text \<open>
  \<open>tracked\<close> is the truth value of \<^verbatim>\<open>token_tracker\<close>; \<open>messages\<close> are the role/content
  pairs of the conversation.
\<close>

definition initial_state :: "event list \<Rightarrow> call_state" where
  "initial_state lg =
     \<lparr>chunk_list = [], token_join = [], role_var = None,
      first_token_received = False, calls = lg @ [SetModeThinking]\<rparr>"

definition started :: "model \<Rightarrow> bool \<Rightarrow> (string \<times> string) list \<Rightarrow> event list" where
  "started self tracked messages =
     (if tracked
      then [SpanEvent ''completion_started'' [],
            SetSpanAttributes (model_id self) (length messages)]
      else [])"

definition call :: "model \<Rightarrow> bool \<Rightarrow> (string \<times> string) list \<Rightarrow> transport \<Rightarrow> (nat \<Rightarrow> bool)
    \<Rightarrow> (string \<Rightarrow> string \<Rightarrow> exn option) \<Rightarrow> result" where
  "call self tracked messages tr stop_event construct =
     (case tr of
        CreateFails e \<Rightarrow>
          \<lparr>outcome = Inl e, model_after = self, trace = started self tracked messages\<rparr>
      | Stream cs fault \<Rightarrow>
          (case for_loop tracked stop_event cs fault
                  (initial_state (started self tracked messages)) of
             (Some e, s) \<Rightarrow> except_handler tracked e self (calls s)
           | (None, s) \<Rightarrow> finalize tracked self cs construct s))"

subsection \<open>\<^verbatim>\<open>OpenAIModel.check_connectivity\<close> (lines 147--176)\<close>

text \<open>
  What a statement of the probe can raise: an instance of \<^verbatim>\<open>Exception\<close>, which the clause
  \<^verbatim>\<open>except Exception as e\<close> of line 174 catches, or an instance of \<^verbatim>\<open>BaseException\<close>
  outside \<^verbatim>\<open>Exception\<close> (\<^verbatim>\<open>asyncio.CancelledError\<close> at the \<^verbatim>\<open>await\<close> of line 166,
  \<^verbatim>\<open>KeyboardInterrupt\<close>, \<^verbatim>\<open>SystemExit\<close>), which it does not catch.
\<close>

datatype raised = is_Exception: ExceptionInstance exn | BaseExceptionOnly exn

text \<open>
  \<open>prepared\<close> is what \<^verbatim>\<open>_prepare_completion_kwargs\<close> does and \<open>response\<close> what the awaited
  request does: each raises or returns. \<open>probe_body\<close> is the body of the \<^verbatim>\<open>try\<close>
  (lines 155--173). The result of the probe is what it raises or returns, with the lines
  logged.
\<close>

definition probe_body :: "raised option \<Rightarrow> raised option \<Rightarrow> raised + bool" where
  "probe_body prepared response =
     (case prepared of
        Some x \<Rightarrow> Inl x
      | None \<Rightarrow> (case response of Some x \<Rightarrow> Inl x | None \<Rightarrow> Inr True))"

definition check_connectivity :: "raised option \<Rightarrow> raised option \<Rightarrow> (raised + bool) \<times> string list" where
  "check_connectivity prepared response =
     (case probe_body prepared response of
        Inr b \<Rightarrow> (Inr b, [])
      | Inl (ExceptionInstance e) \<Rightarrow> (Inr False, [''Connection test failed: '' @ exn_str e])
      | Inl (BaseExceptionOnly e) \<Rightarrow> (Inl (BaseExceptionOnly e), []))"

text \<open>
  An instance of \<open>construct\<close>: the role of a \<^verbatim>\<open>ChatCompletionMessage\<close> is validated
  against the literal \<^verbatim>\<open>"assistant"\<close>.
\<close>

definition assistant_only :: "string \<Rightarrow> string \<Rightarrow> exn option" where
  "assistant_only r c =
     (if r = ''assistant'' then None
      else Some (Exn ''ValidationError'' ''1 validation error for ChatCompletionMessage''))"

definition content_chunk :: "string \<Rightarrow> string option \<Rightarrow> chunk" where
  "content_chunk t r =
     \<lparr>choices = [\<lparr>delta = \<lparr>content = Some t, reasoning_content = None, role = r\<rparr>\<rparr>],
      usage = None\<rparr>"

definition usage_chunk :: "usage \<Rightarrow> chunk" where
  "usage_chunk u =
     \<lparr>choices = [\<lparr>delta = \<lparr>content = None, reasoning_content = None, role = None\<rparr>\<rparr>],
      usage = Some u\<rparr>"

definition fresh_model :: model where
  "fresh_model = \<lparr>model_id = ''m'', last_input_token_count = None, last_output_token_count = None\<rparr>"

text \<open>
  Two ways the signal can behave: set from the poll of iteration \<open>n\<close> on, and never set.
\<close>

definition set_from :: "nat \<Rightarrow> nat \<Rightarrow> bool" where
  "set_from n i = (n \<le> i)"

definition never_set :: "nat \<Rightarrow> bool" where
  "never_set i = False"

text \<open>An instance of \<open>construct\<close> that never raises.\<close>

definition no_fault :: "string \<Rightarrow> string \<Rightarrow> exn option" where
  "no_fault r c = None"

text \<open>
  Observations on a chunk used to state the properties: the content delta that the loop
  reads from it (\<^verbatim>\<open>chunk.choices[0].delta.content\<close>), and whether it carries a content
  delta and no reasoning delta.
\<close>

definition new_token_of :: "chunk \<Rightarrow> string option" where
  "new_token_of c = (case choices c of [] \<Rightarrow> None | ch # _ \<Rightarrow> content (delta ch))"

definition content_only :: "chunk \<Rightarrow> bool" where
  "content_only c =
     (case choices c of
        [] \<Rightarrow> False
      | ch # _ \<Rightarrow> content (delta ch) \<noteq> None \<and> reasoning_content (delta ch) = None)"

definition content_delta :: "chunk \<Rightarrow> string" where
  "content_delta c = (case new_token_of c of None \<Rightarrow> [] | Some t \<Rightarrow> t)"

text \<open>
  The three chunks of the scenario \<^verbatim>\<open>{content:"Hel"}, {content:"lo"},
  {usage:{prompt:5, completion:2}}\<close>; the role that a chunk makes the loop assign to
  \<^verbatim>\<open>role\<close> (\<open>None\<close> when it assigns none); and a model object that has completed a call
  before.
\<close>

definition hello_chunks :: "chunk list" where
  "hello_chunks =
     [content_chunk ''Hel'' None, content_chunk ''lo'' None,
      usage_chunk \<lparr>prompt_tokens = Some 5, completion_tokens = Attribute (Some 2),
                   total_tokens = Some 7\<rparr>]"

text \<open>
  The same scenario with the usage chunk in the shape that carries no choice, and a stream
  whose usage summary has a \<^verbatim>\<open>completion_tokens\<close> attribute that holds \<^verbatim>\<open>None\<close>.
\<close>

definition hello_chunks_bare_usage :: "chunk list" where
  "hello_chunks_bare_usage =
     [content_chunk ''Hel'' None, content_chunk ''lo'' None,
      \<lparr>choices = [],
       usage = Some \<lparr>prompt_tokens = Some 5, completion_tokens = Attribute (Some 2),
                     total_tokens = Some 7\<rparr>\<rparr>]"

definition null_completion_chunks :: "chunk list" where
  "null_completion_chunks =
     [content_chunk ''Hi'' None,
      usage_chunk \<lparr>prompt_tokens = Some 9, completion_tokens = Attribute None,
                   total_tokens = Some 12\<rparr>]"

definition role_tag_of :: "chunk \<Rightarrow> string option option" where
  "role_tag_of c =
     (case choices c of
        [] \<Rightarrow> None
      | ch # _ \<Rightarrow> (case content (delta ch) of None \<Rightarrow> None | Some _ \<Rightarrow> Some (role (delta ch))))"

definition used_model :: model where
  "used_model = \<lparr>model_id = ''m'', last_input_token_count = Some 5, last_output_token_count = Some 2\<rparr>"

text \<open>
  How often \<^verbatim>\<open>record_first_token\<close> was called, whether a chunk carries a reasoning or
  content delta that is not \<^verbatim>\<open>None\<close>, and the invariant of the latch
  \<^verbatim>\<open>first_token_received\<close>.
\<close>

definition count_first :: "event list \<Rightarrow> nat" where
  "count_first lg = length (filter (\<lambda>ev. ev = RecordFirstToken) lg)"

definition has_delta :: "chunk \<Rightarrow> bool" where
  "has_delta c =
     (case choices c of
        [] \<Rightarrow> False
      | ch # _ \<Rightarrow> reasoning_content (delta ch) \<noteq> None \<or> content (delta ch) \<noteq> None)"

definition latch_ok :: "bool \<Rightarrow> call_state \<Rightarrow> bool" where
  "latch_ok t s \<longleftrightarrow>
     first_token_received s = (t \<and> (\<exists>x\<in>set (chunk_list s). has_delta x)) \<and>
     count_first (calls s) = (if first_token_received s then 1 else 0)"

text \<open>No call of \<^verbatim>\<open>add_span_event\<close> among the calls made.\<close>

definition no_span :: "event list \<Rightarrow> bool" where
  "no_span lg = (\<forall>ev\<in>set lg. case ev of SpanEvent n a \<Rightarrow> False | _ \<Rightarrow> True)"

section \<open>Properties\<close>

lemma str_contains_iff: "str_contains sub s \<longleftrightarrow> (\<exists>p q. s = p @ sub @ q)"
proof (induction s)
  case Nil
  then show ?case by auto
next
  case (Cons c cs)
  show ?case
  proof
    assume "str_contains sub (c # cs)"
    then consider "prefix sub (c # cs)" | "str_contains sub cs" by auto
    then show "\<exists>p q. c # cs = p @ sub @ q"
    proof cases
      case 1
      then obtain q where "c # cs = sub @ q" by (auto simp: prefix_def)
      then have "c # cs = [] @ sub @ q" by simp
      then show ?thesis by blast
    next
      case 2
      with Cons.IH obtain p q where "cs = p @ sub @ q" by auto
      then have "c # cs = (c # p) @ sub @ q" by simp
      then show ?thesis by blast
    qed
  next
    assume "\<exists>p q. c # cs = p @ sub @ q"
    then obtain p q where pq: "c # cs = p @ sub @ q" by auto
    show "str_contains sub (c # cs)"
    proof (cases p)
      case Nil
      with pq have "prefix sub (c # cs)" by (auto simp: prefix_def)
      then show ?thesis by simp
    next
      case (Cons a p')
      with pq have "cs = p' @ sub @ q" by simp
      with Cons.IH have "str_contains sub cs" by blast
      then show ?thesis by simp
    qed
  qed
qed

subsection \<open>What one iteration does\<close>

lemma emit_fields [simp]:
  "chunk_list (emit ev s) = chunk_list s"
  "token_join (emit ev s) = token_join s"
  "role_var (emit ev s) = role_var s"
  "first_token_received (emit ev s) = first_token_received s"
  "calls (emit ev s) = calls s @ [ev]"
  by (simp_all add: emit_def)

lemma record_first_fields [simp]:
  "chunk_list (record_first t s) = chunk_list s"
  "token_join (record_first t s) = token_join s"
  "role_var (record_first t s) = role_var s"
  by (simp_all add: record_first_def emit_def)

lemma handle_reasoning_fields [simp]:
  "chunk_list (handle_reasoning t d s) = chunk_list s"
  "token_join (handle_reasoning t d s) = token_join s"
  "role_var (handle_reasoning t d s) = role_var s"
  by (simp_all add: handle_reasoning_def split: option.splits)

lemma handle_token_fields [simp]:
  "chunk_list (handle_token t d s) = chunk_list s"
  "token_join (handle_token t d s) =
     token_join s @ (case content d of None \<Rightarrow> [] | Some x \<Rightarrow> [x])"
  "role_var (handle_token t d s) = (case content d of None \<Rightarrow> role_var s | Some x \<Rightarrow> role d)"
  by (simp_all add: handle_token_def Let_def split: option.splits)

lemma loop_body_fst:
  "fst (loop_body t b c s) =
     (if choices c = [] then Some index_error else if b then Some interrupted else None)"
  by (simp add: loop_body_def Let_def split: list.splits)

lemma loop_body_chunk_list:
  "chunk_list (snd (loop_body t b c s)) =
     (if choices c = [] then chunk_list s else chunk_list s @ [c])"
  by (simp add: loop_body_def Let_def split: list.splits)

lemma reraised_interrupted [simp]: "reraised interrupted = interrupted"
  by (simp add: reraised_def interrupted_def)

lemma reraised_index_error [simp]: "reraised index_error = index_error"
  by (simp add: reraised_def index_error_def)

subsection \<open>Cancellation\<close>

lemma consume_interrupted:
  "k < length cs \<Longrightarrow> stop_event (i + k) \<Longrightarrow> \<forall>j\<le>k. choices (cs ! j) \<noteq> [] \<Longrightarrow>
   fst (consume t stop_event i cs s) = Some interrupted"
proof (induction cs arbitrary: i k s)
  case Nil
  then show ?case by simp
next
  case (Cons c cs)
  from Cons.prems(3) have c: "choices c \<noteq> []" by (metis le0 nth_Cons_0)
  obtain r s' where lb: "loop_body t (stop_event i) c s = (r, s')"
    by (cases "loop_body t (stop_event i) c s")
  have r: "r = (if stop_event i then Some interrupted else None)"
    using loop_body_fst [of t "stop_event i" c s] lb c by simp
  show ?case
  proof (cases "stop_event i")
    case True
    with r lb show ?thesis by simp
  next
    case False
    with Cons.prems(2) have "k \<noteq> 0" by (cases k) auto
    then obtain k' where k: "k = Suc k'" by (cases k) auto
    from Cons.prems k have 1: "k' < length cs" and 2: "stop_event (Suc i + k')"
      and 3: "\<forall>j\<le>k'. choices (cs ! j) \<noteq> []" by auto
    from Cons.IH [OF 1 2 3] have "fst (consume t stop_event (Suc i) cs s') = Some interrupted" .
    with False r lb show ?thesis by simp
  qed
qed

lemma call_raises_interrupted:
  assumes "k < length cs" and "stop_event k" and "\<forall>j\<le>k. choices (cs ! j) \<noteq> []"
  shows "outcome (call self tracked messages (Stream cs fault) stop_event construct)
           = Inl interrupted"
proof -
  let ?s0 = "initial_state (started self tracked messages)"
  from assms have "fst (consume tracked stop_event 0 cs ?s0) = Some interrupted"
    using consume_interrupted [of k cs stop_event 0 tracked ?s0] by simp
  then obtain s' where "consume tracked stop_event 0 cs ?s0 = (Some interrupted, s')"
    by (cases "consume tracked stop_event 0 cs ?s0") auto
  then show ?thesis
    by (simp add: call_def for_loop_def except_handler_def)
qed

text \<open>
  C1 (as amended). When the poll of some iteration \<open>k\<close> finds the signal set, and the chunks up
  to and including chunk \<open>k\<close> each carry a choice, the call raises the interruption error
  \<^verbatim>\<open>RuntimeError("Model is interrupted by stop event")\<close> and returns no message, whatever
  the transport does afterwards.
\<close>

theorem call_interrupted_when_polled:
  assumes "k < length cs" and "stop_event k" and "\<forall>j\<le>k. choices (cs ! j) \<noteq> []"
  shows "outcome (call self tracked messages (Stream cs fault) stop_event construct)
           = Inl (Exn ''RuntimeError'' ''Model is interrupted by stop event'')"
  using assms call_raises_interrupted [where k = k and cs = cs and stop_event = stop_event
      and self = self and tracked = tracked and messages = messages and fault = fault
      and construct = construct]
  by (simp add: interrupted_def)

theorem call_interrupted_when_polled_witness:
  "0 < length [content_chunk ''Hel'' None, content_chunk ''lo'' None]
   \<and> set_from 0 0
   \<and> choices (content_chunk ''Hel'' None) \<noteq> []
   \<and> outcome (call fresh_model True []
         (Stream [content_chunk ''Hel'' None, content_chunk ''lo'' None] None)
         (set_from 0) assistant_only)
       = Inl (Exn ''RuntimeError'' ''Model is interrupted by stop event'')"
  using call_interrupted_when_polled
    [of 0 "[content_chunk ''Hel'' None, content_chunk ''lo'' None]" "set_from 0"
        fresh_model True "[]" None assistant_only]
  by (simp add: set_from_def content_chunk_def)

text \<open>
  C1 fails as stated: with the signal set before consumption begins and a transport that
  delivers no chunk, the loop body never runs, the signal is never polled and the call
  returns a message.
\<close>

theorem call_not_interrupted_without_chunks:
  "set_from 0 0
   \<and> outcome (call fresh_model False [] (Stream [] None) (set_from 0) assistant_only)
       = Inr \<lparr>msg_role = ''assistant'', msg_content = [], raw = []\<rparr>"
  by (simp add: call_def for_loop_def initial_state_def started_def finalize_def emit_def
      extract_usage_def assistant_only_def MessageRole_ASSISTANT_def Let_def set_from_def)

subsection \<open>The connectivity probe\<close>

text \<open>
  C8 (as amended). When what the preparation of the request or the request itself raises is
  an instance of \<^verbatim>\<open>Exception\<close>, the probe returns a boolean and propagates nothing:
  \<open>True\<close> when neither raises, \<open>False\<close> otherwise. An exception outside \<^verbatim>\<open>Exception\<close> is not
  caught by line 174 and leaves the probe.
\<close>

theorem check_connectivity_returns_bool:
  "((\<forall>x. prepared = Some x \<longrightarrow> is_Exception x)
      \<and> (prepared = None \<longrightarrow> (\<forall>x. response = Some x \<longrightarrow> is_Exception x))
     \<longrightarrow> fst (check_connectivity prepared response)
           = Inr (prepared = None \<and> response = None))
   \<and> (prepared = Some (BaseExceptionOnly e)
        \<or> (prepared = None \<and> response = Some (BaseExceptionOnly e))
       \<longrightarrow> fst (check_connectivity prepared response) = Inl (BaseExceptionOnly e))"
proof -
  have 1: "fst (check_connectivity prepared response) = Inr (prepared = None \<and> response = None)"
    if p: "\<forall>x. prepared = Some x \<longrightarrow> is_Exception x"
      and r: "prepared = None \<longrightarrow> (\<forall>x. response = Some x \<longrightarrow> is_Exception x)"
  proof (cases prepared)
    case (Some x)
    with p obtain e' where "x = ExceptionInstance e'" by (cases x) auto
    with Some show ?thesis by (simp add: check_connectivity_def probe_body_def)
  next
    case None
    show ?thesis
    proof (cases response)
      case none: None
      with None show ?thesis by (simp add: check_connectivity_def probe_body_def)
    next
      case (Some x)
      with r None obtain e' where "x = ExceptionInstance e'" by (cases x) auto
      with Some None show ?thesis by (simp add: check_connectivity_def probe_body_def)
    qed
  qed
  have 2: "fst (check_connectivity prepared response) = Inl (BaseExceptionOnly e)"
    if "prepared = Some (BaseExceptionOnly e)
        \<or> (prepared = None \<and> response = Some (BaseExceptionOnly e))"
    using that by (auto simp: check_connectivity_def probe_body_def)
  from 1 2 show ?thesis by blast
qed

theorem check_connectivity_returns_bool_witness:
  "is_Exception (ExceptionInstance (Exn ''APIConnectionError'' ''Connection error.''))
   \<and> check_connectivity None
        (Some (ExceptionInstance (Exn ''APIConnectionError'' ''Connection error.'')))
       = (Inr False, [''Connection test failed: Connection error.''])
   \<and> fst (check_connectivity None None) = Inr True"
proof -
  let ?x = "ExceptionInstance (Exn ''APIConnectionError'' ''Connection error.'')"
  from check_connectivity_returns_bool [where prepared = None and response = "Some ?x"]
  have a: "fst (check_connectivity None (Some ?x)) = Inr False" by simp
  from check_connectivity_returns_bool [where prepared = None and response = None]
  have b: "fst (check_connectivity None None) = Inr True" by simp
  have c: "snd (check_connectivity None (Some ?x))
             = [''Connection test failed: Connection error.'']"
    by (simp add: check_connectivity_def probe_body_def)
  from a c have "check_connectivity None (Some ?x)
                   = (Inr False, [''Connection test failed: Connection error.''])"
    by (simp add: prod_eq_iff)
  with b show ?thesis by simp
qed

text \<open>
  C8 fails as stated: the task that awaits the request is cancelled, the \<^verbatim>\<open>await\<close> of
  line 166 raises \<^verbatim>\<open>asyncio.CancelledError\<close>, which is not an instance of
  \<^verbatim>\<open>Exception\<close>, and the probe raises it to its caller without returning a boolean.
\<close>

theorem check_connectivity_propagates_cancellation:
  "check_connectivity None (Some (BaseExceptionOnly (Exn ''CancelledError'' [])))
     = (Inl (BaseExceptionOnly (Exn ''CancelledError'' [])), [])"
  by (simp add: check_connectivity_def probe_body_def)

subsection \<open>Normal consumption\<close>

lemma loop_body_None:
  "loop_body t b c s = (None, s') \<longleftrightarrow>
     (\<exists>ch rest. choices c = ch # rest \<and> \<not> b \<and>
        s' = (handle_token t (delta ch) (handle_reasoning t (delta ch) s))
               \<lparr>chunk_list := chunk_list s @ [c]\<rparr>)"
  by (auto simp: loop_body_def Let_def split: list.splits)

lemma loop_body_None_fields:
  assumes "loop_body t b c s = (None, s')"
  shows "chunk_list s' = chunk_list s @ [c]"
    and "token_join s' = token_join s @ (case new_token_of c of None \<Rightarrow> [] | Some x \<Rightarrow> [x])"
    and "choices c \<noteq> []" and "\<not> b"
  using assms by (auto simp: loop_body_None new_token_of_def)

lemma consume_None_fields:
  "consume t stop_event i cs s = (None, s') \<Longrightarrow>
     chunk_list s' = chunk_list s @ cs \<and>
     token_join s' = token_join s @ List.map_filter new_token_of cs \<and>
     (\<forall>j<length cs. choices (cs ! j) \<noteq> [] \<and> \<not> stop_event (i + j))"
proof (induction cs arbitrary: i s)
  case Nil
  then show ?case by (simp add: map_filter_simps)
next
  case (Cons c cs)
  obtain r s1 where lb: "loop_body t (stop_event i) c s = (r, s1)"
    by (cases "loop_body t (stop_event i) c s")
  with Cons.prems have r: "r = None" by (cases r) auto
  with lb Cons.prems have rest: "consume t stop_event (Suc i) cs s1 = (None, s')" by simp
  note f = loop_body_None_fields [OF lb [unfolded r]]
  from Cons.IH [OF rest] f show ?case
    by (auto simp: map_filter_simps nth_Cons split: option.splits nat.splits)
qed

lemma consume_None_iff:
  "fst (consume t stop_event i cs s) = None \<longleftrightarrow>
     (\<forall>j<length cs. choices (cs ! j) \<noteq> [] \<and> \<not> stop_event (i + j))"
proof (induction cs arbitrary: i s)
  case Nil
  then show ?case by simp
next
  case (Cons c cs)
  obtain r s1 where lb: "loop_body t (stop_event i) c s = (r, s1)"
    by (cases "loop_body t (stop_event i) c s")
  have r: "r = (if choices c = [] then Some index_error
                else if stop_event i then Some interrupted else None)"
    using loop_body_fst [of t "stop_event i" c s] lb by simp
  have split: "(\<forall>j<length (c # cs). choices ((c # cs) ! j) \<noteq> [] \<and> \<not> stop_event (i + j)) \<longleftrightarrow>
        (choices c \<noteq> [] \<and> \<not> stop_event i) \<and>
        (\<forall>j<length cs. choices (cs ! j) \<noteq> [] \<and> \<not> stop_event (Suc i + j))"
    by (simp add: All_less_Suc2)
  show ?case
  proof (cases r)
    case None
    with r have "choices c \<noteq> [] \<and> \<not> stop_event i" by (auto split: if_splits)
    with None lb Cons.IH [of "Suc i" s1] split show ?thesis by simp
  next
    case (Some e)
    with r have "\<not> (choices c \<noteq> [] \<and> \<not> stop_event i)" by (auto split: if_splits)
    with Some lb split show ?thesis by simp
  qed
qed

lemma call_Stream_normal:
  assumes "consume tracked stop_event 0 cs (initial_state (started self tracked messages)) = (None, s)"
  shows "call self tracked messages (Stream cs None) stop_event construct
           = finalize tracked self cs construct s"
    and "call self tracked messages (Stream cs (Some e)) stop_event construct
           = except_handler tracked e self (calls s)"
  using assms by (simp_all add: call_def for_loop_def)

lemma call_Stream_raised:
  assumes "consume tracked stop_event 0 cs (initial_state (started self tracked messages)) = (Some e, s)"
  shows "call self tracked messages (Stream cs fault) stop_event construct
           = except_handler tracked e self (calls s)"
  using assms by (simp add: call_def for_loop_def)

lemma finalize_outcome:
  "outcome (finalize t self cur construct s) =
     (case construct (case role_var s of None \<Rightarrow> ''assistant''
                      | Some r' \<Rightarrow> if r' = [] then ''assistant'' else r')
                     (concat (token_join s)) of
        Some e \<Rightarrow> Inl (reraised e)
      | None \<Rightarrow> Inr \<lparr>msg_role = ''assistant'', msg_content = concat (token_join s), raw = cur\<rparr>)"
  by (simp add: finalize_def Let_def except_handler_def MessageRole_ASSISTANT_def
      split: prod.splits option.splits)

lemma finalize_model_after:
  "model_after (finalize t self cur construct s) =
     self\<lparr>last_input_token_count := fst (extract_usage (chunk_list s)),
          last_output_token_count := snd (extract_usage (chunk_list s))\<rparr>"
  by (simp add: finalize_def Let_def except_handler_def split: prod.splits option.splits)

lemma finalize_trace:
  "trace (finalize t self cur construct s) =
     calls s @ [FlushRemainingTokens]
     @ (if t then [RecordCompletion (fst (extract_usage (chunk_list s)))
                                    (snd (extract_usage (chunk_list s))),
                   SpanEvent ''completion_finished''
                     [(''total_duration'', AElapsed),
                      (''output_length'', AInt (int (length (concat (token_join s))))),
                      (''chunk_count'', AInt (int (length (chunk_list s))))]]
        else [])
     @ (case construct (case role_var s of None \<Rightarrow> ''assistant''
                        | Some r' \<Rightarrow> if r' = [] then ''assistant'' else r')
                       (concat (token_join s)) of
          Some e \<Rightarrow> if t then [SpanEvent ''error_occurred''
                                 [(''error_type'', AStr (exn_type e)),
                                  (''error_message'', AStr (exn_str e))]] else []
        | None \<Rightarrow> [])"
  by (simp add: finalize_def Let_def except_handler_def split: prod.splits option.splits)

lemma initial_state_fields [simp]:
  "chunk_list (initial_state lg) = []"
  "token_join (initial_state lg) = []"
  "role_var (initial_state lg) = None"
  "first_token_received (initial_state lg) = False"
  "calls (initial_state lg) = lg @ [SetModeThinking]"
  by (simp_all add: initial_state_def)

lemma map_filter_content_only:
  "\<forall>c\<in>set cs. content_only c \<Longrightarrow> List.map_filter new_token_of cs = map content_delta cs"
  by (induction cs)
     (auto simp: map_filter_simps content_only_def content_delta_def new_token_of_def
           split: list.splits option.splits)

text \<open>
  C2. For a chunk sequence in which every chunk carries a content delta and no reasoning
  delta, the content of the returned message is the concatenation of the deltas in arrival
  order; and the call does return a message when the signal is never found set, the
  transport stops normally and the construction of the message does not raise.
\<close>

theorem content_is_concatenation:
  assumes "\<forall>c\<in>set cs. content_only c"
  shows "(\<forall>m. outcome (call self tracked messages (Stream cs fault) stop_event construct) = Inr m
              \<longrightarrow> msg_content m = concat (map content_delta cs))
       \<and> ((\<forall>i<length cs. \<not> stop_event i) \<and> fault = None
            \<and> (\<forall>r. construct r (concat (map content_delta cs)) = None)
           \<longrightarrow> (\<exists>m. outcome (call self tracked messages (Stream cs fault) stop_event construct)
                      = Inr m))"
proof -
  let ?s0 = "initial_state (started self tracked messages)"
  obtain r s where cons: "consume tracked stop_event 0 cs ?s0 = (r, s)"
    by (cases "consume tracked stop_event 0 cs ?s0")
  have tokens: "r = None \<Longrightarrow> concat (token_join s) = concat (map content_delta cs)"
    using consume_None_fields [of tracked stop_event 0 cs ?s0 s] cons
      map_filter_content_only [OF assms] by simp
  have 1: "msg_content m = concat (map content_delta cs)"
    if "outcome (call self tracked messages (Stream cs fault) stop_event construct) = Inr m" for m
  proof (cases r)
    case (Some e)
    with cons that show ?thesis
      by (simp add: call_Stream_raised except_handler_def)
  next
    case None
    show ?thesis
    proof (cases fault)
      case (Some e)
      with None cons that show ?thesis
        by (simp add: call_Stream_normal except_handler_def)
    next
      case fault: None
      from None cons that tokens show ?thesis
        by (auto simp: fault call_Stream_normal finalize_outcome split: option.splits)
    qed
  qed
  have 2: "\<exists>m. outcome (call self tracked messages (Stream cs fault) stop_event construct) = Inr m"
    if "\<forall>i<length cs. \<not> stop_event i" "fault = None"
       "\<forall>r. construct r (concat (map content_delta cs)) = None"
  proof -
    from assms have "\<forall>j<length cs. choices (cs ! j) \<noteq> []"
      by (auto simp: content_only_def split: list.splits)
    with that(1) have "fst (consume tracked stop_event 0 cs ?s0) = None"
      by (simp add: consume_None_iff)
    with cons have r: "r = None" by simp
    with cons that tokens show ?thesis
      by (simp add: call_Stream_normal finalize_outcome)
  qed
  from 1 2 show ?thesis by blast
qed

theorem content_is_concatenation_witness:
  "content_only (content_chunk ''Hel'' None) \<and> content_only (content_chunk ''lo'' None)
   \<and> (\<exists>m. outcome (call fresh_model True []
             (Stream [content_chunk ''Hel'' None, content_chunk ''lo'' None] None)
             never_set no_fault) = Inr m
          \<and> msg_content m = ''Hello'')"
proof -
  have h: "\<forall>c\<in>set [content_chunk ''Hel'' None, content_chunk ''lo'' None]. content_only c"
    by (simp add: content_only_def content_chunk_def)
  have d: "concat (map content_delta [content_chunk ''Hel'' None, content_chunk ''lo'' None]) = ''Hello''"
    by (simp add: content_delta_def new_token_of_def content_chunk_def)
  from content_is_concatenation [OF h, of fresh_model True "[]" None never_set no_fault] h d
  show ?thesis by (auto simp: never_set_def no_fault_def)
qed

text \<open>
  C3. A fault raised by the \<^verbatim>\<open>for\<close> statement (by the transport, or by the loop body)
  whose string contains \<^verbatim>\<open>context_length_exceeded\<close> is re-raised as a \<^verbatim>\<open>ValueError\<close>
  with the message \<^verbatim>\<open>Token limit exceeded: \<close> followed by that string; every other fault is
  re-raised unchanged.
\<close>

theorem stream_fault_reraised:
  assumes "fst (for_loop tracked stop_event cs fault
                  (initial_state (started self tracked messages))) = Some e"
  shows "outcome (call self tracked messages (Stream cs fault) stop_event construct) =
           Inl (if (\<exists>p q. exn_str e = p @ ''context_length_exceeded'' @ q)
                then Exn ''ValueError'' (''Token limit exceeded: '' @ exn_str e)
                else e)"
proof -
  obtain s where "for_loop tracked stop_event cs fault
                    (initial_state (started self tracked messages)) = (Some e, s)"
    using assms by (cases "for_loop tracked stop_event cs fault
                    (initial_state (started self tracked messages))") auto
  then have "outcome (call self tracked messages (Stream cs fault) stop_event construct)
               = Inl (reraised e)"
    by (simp add: call_def except_handler_def)
  then show ?thesis
    by (simp only: reraised_def str_contains_iff)
qed

theorem stream_fault_reraised_witness:
  "fst (for_loop True never_set [content_chunk ''Hel'' None]
          (Some (Exn ''BadRequestError'' ''code: context_length_exceeded''))
          (initial_state (started fresh_model True [])))
     = Some (Exn ''BadRequestError'' ''code: context_length_exceeded'')
   \<and> outcome (call fresh_model True [] (Stream [content_chunk ''Hel'' None]
          (Some (Exn ''BadRequestError'' ''code: context_length_exceeded''))) never_set no_fault)
     = Inl (Exn ''ValueError'' ''Token limit exceeded: code: context_length_exceeded'')"
proof -
  have h: "fst (for_loop True never_set [content_chunk ''Hel'' None]
          (Some (Exn ''BadRequestError'' ''code: context_length_exceeded''))
          (initial_state (started fresh_model True [])))
     = Some (Exn ''BadRequestError'' ''code: context_length_exceeded'')"
    by (simp add: for_loop_def loop_body_def never_set_def content_chunk_def Let_def)
  have c: "\<exists>p q. ''code: context_length_exceeded'' = p @ ''context_length_exceeded'' @ q"
    unfolding str_contains_iff [symmetric] by simp
  from stream_fault_reraised [OF h, of no_fault] c h show ?thesis by simp
qed

subsection \<open>Role and usage\<close>

lemma loop_body_None_role:
  assumes "loop_body t b c s = (None, s')"
  shows "role_var s' = (case role_tag_of c of None \<Rightarrow> role_var s | Some r \<Rightarrow> r)"
  using assms by (auto simp: loop_body_None role_tag_of_def split: option.splits)

lemma consume_None_role:
  "consume t stop_event i cs s = (None, s') \<Longrightarrow>
     role_var s' = foldl (\<lambda>r c. case role_tag_of c of None \<Rightarrow> r | Some r' \<Rightarrow> r') (role_var s) cs"
proof (induction cs arbitrary: i s)
  case Nil
  then show ?case by simp
next
  case (Cons c cs)
  obtain r s1 where lb: "loop_body t (stop_event i) c s = (r, s1)"
    by (cases "loop_body t (stop_event i) c s")
  with Cons.prems have r: "r = None" by (cases r) auto
  with lb Cons.prems have rest: "consume t stop_event (Suc i) cs s1 = (None, s')" by simp
  from Cons.IH [OF rest] loop_body_None_role [OF lb [unfolded r]] show ?case by simp
qed

lemma call_model_after_normal:
  assumes "\<forall>i<length cs. choices (cs ! i) \<noteq> [] \<and> \<not> stop_event i"
  shows "model_after (call self tracked messages (Stream cs None) stop_event construct) =
           self\<lparr>last_input_token_count := fst (extract_usage cs),
                last_output_token_count := snd (extract_usage cs)\<rparr>"
    and "tracked \<Longrightarrow> RecordCompletion (fst (extract_usage cs)) (snd (extract_usage cs))
           \<in> set (trace (call self tracked messages (Stream cs None) stop_event construct))"
proof -
  let ?s0 = "initial_state (started self tracked messages)"
  from assms have "fst (consume tracked stop_event 0 cs ?s0) = None"
    by (simp add: consume_None_iff)
  then obtain s where cons: "consume tracked stop_event 0 cs ?s0 = (None, s)"
    by (cases "consume tracked stop_event 0 cs ?s0") auto
  from consume_None_fields [OF cons] have cl: "chunk_list s = cs" by simp
  have fin: "call self tracked messages (Stream cs None) stop_event construct
               = finalize tracked self cs construct s"
    by (rule call_Stream_normal [OF cons])
  show "model_after (call self tracked messages (Stream cs None) stop_event construct) =
           self\<lparr>last_input_token_count := fst (extract_usage cs),
                last_output_token_count := snd (extract_usage cs)\<rparr>"
    by (simp add: fin finalize_model_after cl)
  show "RecordCompletion (fst (extract_usage cs)) (snd (extract_usage cs))
           \<in> set (trace (call self tracked messages (Stream cs None) stop_event construct))"
    if tracked
    unfolding fin finalize_trace cl using that by simp
qed

lemma hello_chunks_normal:
  "\<forall>i<length hello_chunks. choices (hello_chunks ! i) \<noteq> [] \<and> \<not> never_set i"
  by (auto simp: hello_chunks_def less_Suc_eq content_chunk_def usage_chunk_def never_set_def)

lemma hello_chunks_call:
  assumes "construct ''assistant'' ''Hello'' = None"
  shows "outcome (call self tracked messages (Stream hello_chunks None) never_set construct)
           = Inr \<lparr>msg_role = ''assistant'', msg_content = ''Hello'', raw = hello_chunks\<rparr>"
proof -
  let ?s0 = "initial_state (started self tracked messages)"
  from hello_chunks_normal have "fst (consume tracked never_set 0 hello_chunks ?s0) = None"
    by (simp add: consume_None_iff)
  then obtain s where cons: "consume tracked never_set 0 hello_chunks ?s0 = (None, s)"
    by (cases "consume tracked never_set 0 hello_chunks ?s0") auto
  have tj: "token_join s = [''Hel'', ''lo'']"
    using consume_None_fields [OF cons]
    by (simp add: hello_chunks_def map_filter_simps new_token_of_def content_chunk_def
        usage_chunk_def)
  have rv: "role_var s = None"
    using consume_None_role [OF cons]
    by (simp add: hello_chunks_def role_tag_of_def content_chunk_def usage_chunk_def)
  show ?thesis
    using assms by (simp add: call_Stream_normal [OF cons] finalize_outcome tj rv)
qed

text \<open>
  C4 (as amended). When the loop has consumed every chunk (each carries a choice and no poll
  finds the signal set) and the transport has stopped normally: if the last chunk carries a
  usage summary, the input-token count written to the model and recorded is the value of its
  \<^verbatim>\<open>prompt_tokens\<close> attribute, and the output-token count is the value of its
  \<^verbatim>\<open>completion_tokens\<close> attribute when the summary has that attribute, or the value of
  \<^verbatim>\<open>total_tokens\<close> when it has no such attribute; if the last chunk carries no usage summary,
  or no chunk arrived, both counts are zero. For the chunks
  \<^verbatim>\<open>{content:"Hel"}, {content:"lo"}, {usage:{prompt:5, completion:2}}\<close>, each with a choice,
  the message has content \<^verbatim>\<open>Hello\<close> and the counts are 5 and 2.
\<close>

theorem usage_counts_reported:
  assumes "\<forall>i<length cs. choices (cs ! i) \<noteq> [] \<and> \<not> stop_event i"
  shows "(cs \<noteq> [] \<and> usage (last cs) = Some u \<longrightarrow>
            last_input_token_count
              (model_after (call self tracked messages (Stream cs None) stop_event construct))
              = prompt_tokens u
          \<and> last_output_token_count
              (model_after (call self tracked messages (Stream cs None) stop_event construct))
              = (case completion_tokens u of Attribute v \<Rightarrow> v | NoAttribute \<Rightarrow> total_tokens u)
          \<and> (tracked \<longrightarrow>
               RecordCompletion (prompt_tokens u)
                 (case completion_tokens u of Attribute v \<Rightarrow> v | NoAttribute \<Rightarrow> total_tokens u)
               \<in> set (trace (call self tracked messages (Stream cs None) stop_event construct))))
       \<and> (cs = [] \<or> usage (last cs) = None \<longrightarrow>
            last_input_token_count
              (model_after (call self tracked messages (Stream cs None) stop_event construct))
              = Some 0
          \<and> last_output_token_count
              (model_after (call self tracked messages (Stream cs None) stop_event construct))
              = Some 0
          \<and> (tracked \<longrightarrow>
               RecordCompletion (Some 0) (Some 0)
               \<in> set (trace (call self tracked messages (Stream cs None) stop_event construct))))
       \<and> (construct ''assistant'' ''Hello'' = None \<longrightarrow>
            outcome (call self tracked messages (Stream hello_chunks None) never_set construct)
              = Inr \<lparr>msg_role = ''assistant'', msg_content = ''Hello'', raw = hello_chunks\<rparr>
          \<and> last_input_token_count
              (model_after (call self tracked messages (Stream hello_chunks None) never_set construct))
              = Some 5
          \<and> last_output_token_count
              (model_after (call self tracked messages (Stream hello_chunks None) never_set construct))
              = Some 2)"
proof -
  let ?R = "call self tracked messages (Stream cs None) stop_event construct"
  let ?H = "call self tracked messages (Stream hello_chunks None) never_set construct"
  note m = call_model_after_normal [OF assms, where self=self and tracked=tracked
      and messages=messages and construct=construct]
  note h = call_model_after_normal(1) [OF hello_chunks_normal, where self=self
      and tracked=tracked and messages=messages and construct=construct]
  have A: "last_input_token_count (model_after ?R) = prompt_tokens u
         \<and> last_output_token_count (model_after ?R)
             = (case completion_tokens u of Attribute v \<Rightarrow> v | NoAttribute \<Rightarrow> total_tokens u)
         \<and> (tracked \<longrightarrow>
               RecordCompletion (prompt_tokens u)
                 (case completion_tokens u of Attribute v \<Rightarrow> v | NoAttribute \<Rightarrow> total_tokens u)
               \<in> set (trace ?R))"
    if "cs \<noteq> [] \<and> usage (last cs) = Some u"
  proof -
    from that have "extract_usage cs =
        (prompt_tokens u,
         case completion_tokens u of Attribute v \<Rightarrow> v | NoAttribute \<Rightarrow> total_tokens u)"
      by (simp add: extract_usage_def)
    with m show ?thesis by simp
  qed
  have B: "last_input_token_count (model_after ?R) = Some 0
         \<and> last_output_token_count (model_after ?R) = Some 0
         \<and> (tracked \<longrightarrow> RecordCompletion (Some 0) (Some 0) \<in> set (trace ?R))"
    if "cs = [] \<or> usage (last cs) = None"
  proof -
    from that have "extract_usage cs = (Some 0, Some 0)" by (auto simp: extract_usage_def)
    with m show ?thesis by simp
  qed
  have C: "outcome ?H = Inr \<lparr>msg_role = ''assistant'', msg_content = ''Hello'', raw = hello_chunks\<rparr>
         \<and> last_input_token_count (model_after ?H) = Some 5
         \<and> last_output_token_count (model_after ?H) = Some 2"
    if "construct ''assistant'' ''Hello'' = None"
  proof -
    have "extract_usage hello_chunks = (Some 5, Some 2)"
      by (simp add: extract_usage_def hello_chunks_def usage_chunk_def)
    with h that hello_chunks_call [where construct=construct and self=self and tracked=tracked
        and messages=messages]
    show ?thesis by simp
  qed
  from A B C show ?thesis by blast
qed

theorem usage_counts_reported_witness:
  "usage (last hello_chunks)
     = Some \<lparr>prompt_tokens = Some 5, completion_tokens = Attribute (Some 2),
             total_tokens = Some 7\<rparr>
   \<and> last_input_token_count fresh_model = None
   \<and> last_input_token_count
       (model_after (call fresh_model True [] (Stream hello_chunks None) never_set assistant_only))
       = Some 5
   \<and> last_output_token_count
       (model_after (call fresh_model True [] (Stream hello_chunks None) never_set assistant_only))
       = Some 2
   \<and> RecordCompletion (Some 5) (Some 2)
       \<in> set (trace (call fresh_model True [] (Stream hello_chunks None) never_set assistant_only))"
proof -
  have u: "usage (last hello_chunks)
     = Some \<lparr>prompt_tokens = Some 5, completion_tokens = Attribute (Some 2),
             total_tokens = Some 7\<rparr>"
    by (simp add: hello_chunks_def usage_chunk_def)
  have n: "hello_chunks \<noteq> []" by (simp add: hello_chunks_def)
  have f: "last_input_token_count fresh_model = None" by (simp add: fresh_model_def)
  from usage_counts_reported [OF hello_chunks_normal,
      where u = "\<lparr>prompt_tokens = Some 5, completion_tokens = Attribute (Some 2),
                   total_tokens = Some 7\<rparr>"
        and self = fresh_model and tracked = True and messages = "[]"
        and construct = assistant_only] u n f
  show ?thesis by simp
qed

text \<open>
  C4 fails as stated. When the usage summary arrives in a chunk without a choice, line 65
  raises \<^verbatim>\<open>IndexError\<close>: nothing is recorded and the counters of the model keep what they
  held. When the \<^verbatim>\<open>completion_tokens\<close> attribute of the summary holds \<^verbatim>\<open>None\<close>, the
  output-token count written and recorded is \<^verbatim>\<open>None\<close>, not the total of 12. And when the
  poll that follows the usage chunk finds the signal set, the call raises and the counters
  keep what they held.
\<close>

theorem usage_counts_not_reported:
  "usage (last hello_chunks_bare_usage)
     = Some \<lparr>prompt_tokens = Some 5, completion_tokens = Attribute (Some 2),
             total_tokens = Some 7\<rparr>
   \<and> call fresh_model True [] (Stream hello_chunks_bare_usage None) never_set assistant_only
     = \<lparr>outcome = Inl (Exn ''IndexError'' ''list index out of range''),
        model_after = fresh_model,
        trace = [SpanEvent ''completion_started'' [], SetSpanAttributes ''m'' 0, SetModeThinking,
                 RecordFirstToken, RecordToken ''Hel'', AddModelNewToken ''Hel'',
                 RecordToken ''lo'', AddModelNewToken ''lo'',
                 SpanEvent ''error_occurred''
                   [(''error_type'', AStr ''IndexError''),
                    (''error_message'', AStr ''list index out of range'')]]\<rparr>
   \<and> last_output_token_count used_model = Some 2
   \<and> last_output_token_count
       (model_after (call used_model True [] (Stream null_completion_chunks None) never_set
                       assistant_only)) = None
   \<and> RecordCompletion (Some 9) None
       \<in> set (trace (call used_model True [] (Stream null_completion_chunks None) never_set
                        assistant_only))
   \<and> outcome (call used_model True [] (Stream hello_chunks None) (set_from 2) assistant_only)
     = Inl (Exn ''RuntimeError'' ''Model is interrupted by stop event'')
   \<and> model_after (call used_model True [] (Stream hello_chunks None) (set_from 2)
                    assistant_only) = used_model"
proof -
  have 1: "usage (last hello_chunks_bare_usage)
     = Some \<lparr>prompt_tokens = Some 5, completion_tokens = Attribute (Some 2),
             total_tokens = Some 7\<rparr>"
    by (simp add: hello_chunks_bare_usage_def)
  have 2: "call fresh_model True [] (Stream hello_chunks_bare_usage None) never_set assistant_only
     = \<lparr>outcome = Inl (Exn ''IndexError'' ''list index out of range''),
        model_after = fresh_model,
        trace = [SpanEvent ''completion_started'' [], SetSpanAttributes ''m'' 0, SetModeThinking,
                 RecordFirstToken, RecordToken ''Hel'', AddModelNewToken ''Hel'',
                 RecordToken ''lo'', AddModelNewToken ''lo'',
                 SpanEvent ''error_occurred''
                   [(''error_type'', AStr ''IndexError''),
                    (''error_message'', AStr ''list index out of range'')]]\<rparr>"
    by (simp add: call_def for_loop_def initial_state_def started_def emit_def Let_def
        never_set_def except_handler_def hello_chunks_bare_usage_def loop_body_def
        handle_token_def handle_reasoning_def record_first_def content_chunk_def
        fresh_model_def reraised_def index_error_def)
  have 3: "last_output_token_count used_model = Some 2" by (simp add: used_model_def)
  have n: "\<forall>i<length null_completion_chunks.
             choices (null_completion_chunks ! i) \<noteq> [] \<and> \<not> never_set i"
    by (auto simp: null_completion_chunks_def less_Suc_eq content_chunk_def usage_chunk_def
        never_set_def)
  have e: "extract_usage null_completion_chunks = (Some 9, None)"
    by (simp add: extract_usage_def null_completion_chunks_def usage_chunk_def)
  have 4: "last_output_token_count
       (model_after (call used_model True [] (Stream null_completion_chunks None) never_set
                       assistant_only)) = None"
    using call_model_after_normal(1) [OF n, where self = used_model and tracked = True
        and messages = "[]" and construct = assistant_only] e
    by simp
  have 5: "RecordCompletion (Some 9) None
       \<in> set (trace (call used_model True [] (Stream null_completion_chunks None) never_set
                        assistant_only))"
    using call_model_after_normal(2) [OF n, where self = used_model and tracked = True
        and messages = "[]" and construct = assistant_only] e
    by simp
  have 6: "outcome (call used_model True [] (Stream hello_chunks None) (set_from 2) assistant_only)
     = Inl (Exn ''RuntimeError'' ''Model is interrupted by stop event'')"
    using call_raises_interrupted [where k = 2 and cs = hello_chunks
        and stop_event = "set_from 2" and self = used_model and tracked = True
        and messages = "[]" and fault = None and construct = assistant_only]
    by (simp add: hello_chunks_def set_from_def content_chunk_def usage_chunk_def le_Suc_eq
        numeral_2_eq_2 interrupted_def)
  have 7: "model_after (call used_model True [] (Stream hello_chunks None) (set_from 2)
                    assistant_only) = used_model"
  proof -
    have "fst (for_loop True (set_from 2) hello_chunks None
                 (initial_state (started used_model True []))) \<noteq> None"
      using consume_interrupted [where k = 2 and cs = hello_chunks and i = 0
          and stop_event = "set_from 2" and t = True
          and s = "initial_state (started used_model True [])"]
      by (cases "consume True (set_from 2) 0 hello_chunks
                   (initial_state (started used_model True []))")
         (auto simp: for_loop_def hello_chunks_def set_from_def content_chunk_def
            usage_chunk_def le_Suc_eq numeral_2_eq_2)
    then show ?thesis
      by (cases "for_loop True (set_from 2) hello_chunks None
                   (initial_state (started used_model True []))")
         (auto simp: call_def except_handler_def)
  qed
  from 1 2 3 4 5 6 7 show ?thesis by blast
qed

subsection \<open>The returned message and the model's counters\<close>

lemma call_returns:
  assumes "outcome (call self tracked messages tr stop_event construct) = Inr m"
  shows "\<exists>cs s. tr = Stream cs None
           \<and> consume tracked stop_event 0 cs (initial_state (started self tracked messages))
               = (None, s)
           \<and> m = \<lparr>msg_role = ''assistant'', msg_content = concat (token_join s), raw = cs\<rparr>"
proof (cases tr)
  case (CreateFails e)
  with assms show ?thesis by (simp add: call_def)
next
  case (Stream cs fault)
  let ?s0 = "initial_state (started self tracked messages)"
  obtain r s where cons: "consume tracked stop_event 0 cs ?s0 = (r, s)"
    by (cases "consume tracked stop_event 0 cs ?s0")
  show ?thesis
  proof (cases r)
    case (Some e)
    with cons assms Stream show ?thesis
      by (simp add: call_Stream_raised except_handler_def)
  next
    case None
    show ?thesis
    proof (cases fault)
      case (Some e)
      with None cons assms Stream show ?thesis
        by (simp add: call_Stream_normal except_handler_def)
    next
      case fault: None
      from None cons assms Stream show ?thesis
        by (auto simp: fault call_Stream_normal finalize_outcome split: option.splits)
    qed
  qed
qed

lemma foldl_role_None:
  "\<forall>c\<in>set cs. role_tag_of c = None \<or> role_tag_of c = Some None \<Longrightarrow>
   foldl (\<lambda>r c. case role_tag_of c of None \<Rightarrow> r | Some r' \<Rightarrow> r') None cs = None"
  by (induction cs) auto

text \<open>
  C6 (as amended). The role of every returned message is the assistant role, whatever role
  tags the chunks carried: line 135 sets it after the message is built. And when no chunk
  carried a role tag, the role handed to the constructor of the message is
  \<^verbatim>\<open>"assistant"\<close>: a constructor that accepts that role with the joined content lets the
  call return.
\<close>

theorem returned_role_is_assistant:
  "(outcome (call self tracked messages tr stop_event construct) = Inr m
      \<longrightarrow> msg_role m = ''assistant'')
   \<and> ((\<forall>i<length cs. choices (cs ! i) \<noteq> [] \<and> \<not> stop_event i
                      \<and> role (delta (hd (choices (cs ! i)))) = None)
       \<and> construct ''assistant'' (concat (List.map_filter new_token_of cs)) = None
      \<longrightarrow> (\<exists>m'. outcome (call self tracked messages (Stream cs None) stop_event construct)
                  = Inr m'))"
proof -
  have 1: "msg_role m = ''assistant''"
    if "outcome (call self tracked messages tr stop_event construct) = Inr m"
    using call_returns [OF that] by auto
  have 2: "\<exists>m'. outcome (call self tracked messages (Stream cs None) stop_event construct) = Inr m'"
    if h: "\<forall>i<length cs. choices (cs ! i) \<noteq> [] \<and> \<not> stop_event i
                      \<and> role (delta (hd (choices (cs ! i)))) = None"
      and c: "construct ''assistant'' (concat (List.map_filter new_token_of cs)) = None"
  proof -
    let ?s0 = "initial_state (started self tracked messages)"
    from h have "fst (consume tracked stop_event 0 cs ?s0) = None"
      by (simp add: consume_None_iff)
    then obtain s where cons: "consume tracked stop_event 0 cs ?s0 = (None, s)"
      by (cases "consume tracked stop_event 0 cs ?s0") auto
    have "role_tag_of c = None \<or> role_tag_of c = Some None" if "c \<in> set cs" for c
    proof -
      from that obtain i where i: "i < length cs" "cs ! i = c"
        by (auto simp: in_set_conv_nth)
      with h have "choices c \<noteq> []" "role (delta (hd (choices c))) = None" by auto
      then show ?thesis
        by (cases "choices c") (auto simp: role_tag_of_def split: option.splits)
    qed
    then have "\<forall>c\<in>set cs. role_tag_of c = None \<or> role_tag_of c = Some None" by blast
    with consume_None_role [OF cons] have rv: "role_var s = None"
      by (simp add: foldl_role_None)
    from consume_None_fields [OF cons]
    have tj: "token_join s = List.map_filter new_token_of cs" by simp
    from c show ?thesis
      by (simp add: call_Stream_normal [OF cons] finalize_outcome rv tj)
  qed
  from 1 2 show ?thesis by blast
qed

theorem returned_role_is_assistant_witness:
  "\<exists>m'. outcome (call fresh_model True [] (Stream hello_chunks None) never_set assistant_only)
           = Inr m'
        \<and> msg_role m' = ''assistant''"
proof -
  have h: "\<forall>i<length hello_chunks. choices (hello_chunks ! i) \<noteq> [] \<and> \<not> never_set i
             \<and> role (delta (hd (choices (hello_chunks ! i)))) = None"
    by (auto simp: hello_chunks_def less_Suc_eq content_chunk_def usage_chunk_def never_set_def)
  have c: "assistant_only ''assistant'' (concat (List.map_filter new_token_of hello_chunks)) = None"
    by (simp add: assistant_only_def)
  from returned_role_is_assistant [where cs = hello_chunks and stop_event = never_set
      and construct = assistant_only and self = fresh_model and tracked = True
      and messages = "[]" and tr = "Stream hello_chunks None"] h c
  obtain m' where m': "outcome (call fresh_model True [] (Stream hello_chunks None) never_set
      assistant_only) = Inr m'" by blast
  from returned_role_is_assistant [where m = m' and stop_event = never_set
      and construct = assistant_only and self = fresh_model and tracked = True
      and messages = "[]" and tr = "Stream hello_chunks None"] m'
  have "msg_role m' = ''assistant''" by blast
  with m' show ?thesis by blast
qed

text \<open>
  C6 fails as stated: the first content-bearing chunk carries the role tag \<^verbatim>\<open>user\<close>, a
  later content-bearing chunk carries none, and the returned message has the assistant role.
\<close>

theorem role_tag_not_returned:
  "role (delta (hd (choices (content_chunk ''a'' (Some ''user''))))) = Some ''user''
   \<and> outcome (call fresh_model False []
         (Stream [content_chunk ''a'' (Some ''user''), content_chunk ''b'' None] None)
         never_set assistant_only)
       = Inr \<lparr>msg_role = ''assistant'', msg_content = ''ab'',
              raw = [content_chunk ''a'' (Some ''user''), content_chunk ''b'' None]\<rparr>"
  by (simp add: call_def for_loop_def initial_state_def started_def finalize_def emit_def
      extract_usage_def assistant_only_def MessageRole_ASSISTANT_def Let_def never_set_def
      loop_body_def handle_token_def handle_reasoning_def record_first_def content_chunk_def)

text \<open>
  C10 (as amended). A fault raised by the request, by the transport or in the loop
  (cancellation included) leaves \<^verbatim>\<open>last_input_token_count\<close> and
  \<^verbatim>\<open>last_output_token_count\<close> as they were; so does every faulted invocation when the
  constructors of the message do not raise.
\<close>

theorem counts_unchanged_on_fault:
  "model_after (call self tracked messages (CreateFails e) stop_event construct) = self
   \<and> (fst (for_loop tracked stop_event cs fault (initial_state (started self tracked messages)))
         \<noteq> None
       \<longrightarrow> model_after (call self tracked messages (Stream cs fault) stop_event construct) = self)
   \<and> ((\<forall>r c. construct r c = None)
        \<and> outcome (call self tracked messages tr stop_event construct) = Inl e'
       \<longrightarrow> model_after (call self tracked messages tr stop_event construct) = self)"
proof -
  have 1: "model_after (call self tracked messages (CreateFails e) stop_event construct) = self"
    by (simp add: call_def)
  have 2: "model_after (call self tracked messages (Stream cs fault) stop_event construct) = self"
    if "fst (for_loop tracked stop_event cs fault (initial_state (started self tracked messages)))
         \<noteq> None" for cs fault
    using that
    by (cases "for_loop tracked stop_event cs fault
                 (initial_state (started self tracked messages))")
       (auto simp: call_def except_handler_def)
  have 3: "model_after (call self tracked messages tr stop_event construct) = self"
    if n: "\<forall>r c. construct r c = None"
      and f: "outcome (call self tracked messages tr stop_event construct) = Inl e'"
  proof (cases tr)
    case (CreateFails e0)
    then show ?thesis by (simp add: call_def)
  next
    case (Stream cs' fault')
    show ?thesis
    proof (cases "fst (for_loop tracked stop_event cs' fault'
                         (initial_state (started self tracked messages)))")
      case None
      then obtain s where "for_loop tracked stop_event cs' fault'
                         (initial_state (started self tracked messages)) = (None, s)"
        by (cases "for_loop tracked stop_event cs' fault'
                         (initial_state (started self tracked messages))") auto
      with n f Stream show ?thesis
        by (simp add: call_def finalize_outcome)
    next
      case (Some a)
      with 2 [of cs' fault'] Stream show ?thesis by simp
    qed
  qed
  from 1 2 [of cs fault] 3 show ?thesis by blast
qed

theorem counts_unchanged_on_fault_witness:
  "outcome (call used_model True [] (Stream hello_chunks None) (set_from 1) no_fault)
     = Inl (Exn ''RuntimeError'' ''Model is interrupted by stop event'')
   \<and> model_after (call used_model True [] (Stream hello_chunks None) (set_from 1) no_fault)
     = used_model"
proof -
  have o: "outcome (call used_model True [] (Stream hello_chunks None) (set_from 1) no_fault)
     = Inl (Exn ''RuntimeError'' ''Model is interrupted by stop event'')"
    using call_raises_interrupted [where k = 1 and cs = hello_chunks
        and stop_event = "set_from 1" and self = used_model and tracked = True
        and messages = "[]" and fault = None and construct = no_fault]
    by (simp add: hello_chunks_def set_from_def content_chunk_def le_Suc_eq interrupted_def)
  have n: "\<forall>r c. no_fault r c = None" by (simp add: no_fault_def)
  from counts_unchanged_on_fault [where construct = no_fault and self = used_model
      and tracked = True and messages = "[]" and tr = "Stream hello_chunks None"
      and stop_event = "set_from 1"
      and e' = "Exn ''RuntimeError'' ''Model is interrupted by stop event''"] o n
  show ?thesis by blast
qed

text \<open>
  C10 fails as stated: the counters are written (lines 111--115) before the message is built
  (lines 130--132), so a fault raised there leaves them overwritten. Here the last
  content-bearing chunk carries the role tag \<^verbatim>\<open>user\<close>, which the constructor rejects.
\<close>

theorem counts_written_before_message_is_built:
  "outcome (call used_model False [] (Stream [content_chunk ''a'' (Some ''user'')] None)
              never_set assistant_only)
     = Inl (Exn ''ValidationError'' ''1 validation error for ChatCompletionMessage'')
   \<and> last_input_token_count used_model = Some 5
   \<and> last_input_token_count
       (model_after (call used_model False [] (Stream [content_chunk ''a'' (Some ''user'')] None)
              never_set assistant_only)) = Some 0"
  by (simp add: call_def for_loop_def initial_state_def started_def finalize_def emit_def
      extract_usage_def assistant_only_def Let_def never_set_def except_handler_def
      loop_body_def handle_token_def handle_reasoning_def record_first_def content_chunk_def
      reraised_def used_model_def)

subsection \<open>How soon the loop observes the signal\<close>

lemma consume_processed_bound:
  "stop_event (i + k) \<Longrightarrow>
   length (chunk_list (snd (consume t stop_event i cs s))) \<le> length (chunk_list s) + Suc k"
proof (induction cs arbitrary: i k s)
  case Nil
  then show ?case by simp
next
  case (Cons c cs)
  obtain r s1 where lb: "loop_body t (stop_event i) c s = (r, s1)"
    by (cases "loop_body t (stop_event i) c s")
  have len: "length (chunk_list s1) \<le> Suc (length (chunk_list s))"
    using loop_body_chunk_list [of t "stop_event i" c s] lb by (simp split: if_splits)
  show ?case
  proof (cases r)
    case (Some e)
    with lb len show ?thesis by simp
  next
    case None
    with lb loop_body_fst [of t "stop_event i" c s] have "\<not> stop_event i"
      by (auto split: if_splits)
    with Cons.prems obtain k' where k: "k = Suc k'" by (cases k) auto
    with Cons.prems have "stop_event (Suc i + k')" by simp
    from Cons.IH [OF this, of s1] None lb len k show ?thesis by simp
  qed
qed

lemma consume_stops_at:
  "k < length cs \<Longrightarrow> stop_event (i + k) \<Longrightarrow> \<forall>j<k. \<not> stop_event (i + j) \<Longrightarrow>
   \<forall>j\<le>k. choices (cs ! j) \<noteq> [] \<Longrightarrow>
   chunk_list (snd (consume t stop_event i cs s)) = chunk_list s @ take (Suc k) cs"
proof (induction cs arbitrary: i k s)
  case Nil
  then show ?case by simp
next
  case (Cons c cs)
  from Cons.prems(4) have c: "choices c \<noteq> []" by (metis le0 nth_Cons_0)
  obtain r s1 where lb: "loop_body t (stop_event i) c s = (r, s1)"
    by (cases "loop_body t (stop_event i) c s")
  have r: "r = (if stop_event i then Some interrupted else None)"
    using loop_body_fst [of t "stop_event i" c s] lb c by simp
  have cl: "chunk_list s1 = chunk_list s @ [c]"
    using loop_body_chunk_list [of t "stop_event i" c s] lb c by simp
  show ?case
  proof (cases k)
    case 0
    with Cons.prems have "stop_event i" by simp
    with r lb cl 0 show ?thesis by simp
  next
    case (Suc k')
    with Cons.prems(3) have ns: "\<not> stop_event i" by (metis add_0_right zero_less_Suc)
    from Cons.prems Suc have 1: "k' < length cs" and 2: "stop_event (Suc i + k')"
      and 3: "\<forall>j<k'. \<not> stop_event (Suc i + j)" and 4: "\<forall>j\<le>k'. choices (cs ! j) \<noteq> []"
      by auto
    from Cons.IH [OF 1 2 3 4, of s1] ns r lb cl Suc show ?thesis by simp
  qed
qed

text \<open>
  C9. The signal is polled once in every iteration, after the chunk of that iteration has
  been processed. If the poll of iteration \<open>k\<close> is the first to find it set (so it became set
  after the poll of iteration \<open>k - 1\<close>), the loop has processed at most \<open>k + 1\<close> chunks when
  it exits: the \<open>k\<close> chunks before, and at most one more. When chunk \<open>k\<close> arrives and the chunks
  up to it each carry a choice, the loop exits in iteration \<open>k\<close> with the interruption error,
  having processed exactly the first \<open>k + 1\<close> chunks.
\<close>

theorem loop_exits_within_one_iteration:
  assumes "stop_event k" and "\<forall>j<k. \<not> stop_event j"
  shows "length (chunk_list (snd (consume tracked stop_event 0 cs (initial_state lg)))) \<le> Suc k
       \<and> (k < length cs \<and> (\<forall>j\<le>k. choices (cs ! j) \<noteq> []) \<longrightarrow>
            fst (consume tracked stop_event 0 cs (initial_state lg)) = Some interrupted
          \<and> chunk_list (snd (consume tracked stop_event 0 cs (initial_state lg)))
              = take (Suc k) cs)"
proof -
  have 1: "length (chunk_list (snd (consume tracked stop_event 0 cs (initial_state lg)))) \<le> Suc k"
    using consume_processed_bound [of stop_event 0 k tracked cs "initial_state lg"] assms(1)
    by simp
  have 2: "fst (consume tracked stop_event 0 cs (initial_state lg)) = Some interrupted
          \<and> chunk_list (snd (consume tracked stop_event 0 cs (initial_state lg)))
              = take (Suc k) cs"
    if "k < length cs" "\<forall>j\<le>k. choices (cs ! j) \<noteq> []"
    using consume_interrupted [of k cs stop_event 0 tracked "initial_state lg"]
      consume_stops_at [of k cs stop_event 0 tracked "initial_state lg"] assms that
    by simp
  from 1 2 show ?thesis by blast
qed

theorem loop_exits_within_one_iteration_witness:
  "set_from 1 1 \<and> \<not> set_from 1 0
   \<and> fst (consume True (set_from 1) 0 hello_chunks (initial_state [])) = Some interrupted
   \<and> chunk_list (snd (consume True (set_from 1) 0 hello_chunks (initial_state [])))
       = [content_chunk ''Hel'' None, content_chunk ''lo'' None]"
proof -
  have a: "set_from 1 1" and b: "\<forall>j<1. \<not> set_from 1 j" by (simp_all add: set_from_def)
  have c: "1 < length hello_chunks \<and> (\<forall>j\<le>1. choices (hello_chunks ! j) \<noteq> [])"
    by (auto simp: hello_chunks_def content_chunk_def le_Suc_eq)
  have d: "take (Suc 1) hello_chunks = [content_chunk ''Hel'' None, content_chunk ''lo'' None]"
    by (simp add: hello_chunks_def)
  from loop_exits_within_one_iteration [OF a b, where cs = hello_chunks and tracked = True
      and lg = "[]"] c d
  have e: "fst (consume True (set_from 1) 0 hello_chunks (initial_state [])) = Some interrupted
     \<and> chunk_list (snd (consume True (set_from 1) 0 hello_chunks (initial_state [])))
         = [content_chunk ''Hel'' None, content_chunk ''lo'' None]"
    by simp
  have f: "set_from 1 1 \<and> \<not> set_from 1 0" by (simp add: set_from_def)
  from e f show ?thesis by blast
qed

subsection \<open>First-token latency\<close>

lemma count_first_simps [simp]:
  "count_first [] = 0"
  "count_first (lg @ lg') = count_first lg + count_first lg'"
  "count_first (ev # lg) = (if ev = RecordFirstToken then 1 else 0) + count_first lg"
  by (simp_all add: count_first_def)

lemma loop_body_latch:
  assumes "latch_ok t s"
  shows "latch_ok t (snd (loop_body t b c s))"
proof (cases "choices c")
  case Nil
  with assms show ?thesis by (simp add: loop_body_def)
next
  case (Cons ch rest)
  with assms show ?thesis
    by (cases "reasoning_content (delta ch)"; cases "content (delta ch)"; cases t;
        cases "first_token_received s")
       (auto simp: latch_ok_def loop_body_def handle_reasoning_def handle_token_def
          record_first_def emit_def has_delta_def Let_def)
qed

lemma consume_latch:
  "latch_ok t s \<Longrightarrow> latch_ok t (snd (consume t stop_event i cs s))"
proof (induction cs arbitrary: i s)
  case Nil
  then show ?case by simp
next
  case (Cons c cs)
  obtain r s1 where lb: "loop_body t (stop_event i) c s = (r, s1)"
    by (cases "loop_body t (stop_event i) c s")
  from loop_body_latch [OF Cons.prems, of "stop_event i" c] lb have l1: "latch_ok t s1" by simp
  show ?case
  proof (cases r)
    case None
    with lb Cons.IH [OF l1] show ?thesis by simp
  next
    case (Some e)
    with lb l1 show ?thesis by simp
  qed
qed

lemma consume_processed_subset:
  "set (chunk_list (snd (consume t stop_event i cs s))) \<subseteq> set (chunk_list s) \<union> set cs"
proof (induction cs arbitrary: i s)
  case Nil
  then show ?case by simp
next
  case (Cons c cs)
  obtain r s1 where lb: "loop_body t (stop_event i) c s = (r, s1)"
    by (cases "loop_body t (stop_event i) c s")
  have cl: "set (chunk_list s1) \<subseteq> set (chunk_list s) \<union> {c}"
    using loop_body_chunk_list [of t "stop_event i" c s] lb by (auto split: if_splits)
  show ?case
  proof (cases r)
    case None
    with lb Cons.IH [of "Suc i" s1] cl show ?thesis by auto
  next
    case (Some e)
    with lb cl show ?thesis by auto
  qed
qed

lemma consume_append:
  "consume t stop_event i (xs @ ys) s =
     (case consume t stop_event i xs s of
        (Some e, s') \<Rightarrow> (Some e, s')
      | (None, s') \<Rightarrow> consume t stop_event (i + length xs) ys s')"
  by (induction xs arbitrary: i s) (auto split: prod.splits option.splits)

lemma initial_latch: "latch_ok t (initial_state (started self t messages))"
  by (simp add: latch_ok_def started_def)

lemma call_count_first:
  "count_first (trace (call self tracked messages (Stream cs fault) stop_event construct)) =
     count_first (calls (snd (consume tracked stop_event 0 cs
                               (initial_state (started self tracked messages)))))"
proof -
  let ?s0 = "initial_state (started self tracked messages)"
  obtain r s where cons: "consume tracked stop_event 0 cs ?s0 = (r, s)"
    by (cases "consume tracked stop_event 0 cs ?s0")
  show ?thesis
  proof (cases r)
    case (Some e)
    with cons show ?thesis by (simp add: call_Stream_raised except_handler_def)
  next
    case None
    show ?thesis
    proof (cases fault)
      case (Some e)
      with None cons show ?thesis by (simp add: call_Stream_normal except_handler_def)
    next
      case fault: None
      from None cons show ?thesis
        by (simp add: fault call_Stream_normal finalize_trace split: option.splits)
    qed
  qed
qed

lemma count_first_processed:
  "count_first (calls (snd (consume t stop_event 0 cs (initial_state (started self t messages)))))
     = (if t \<and> (\<exists>x\<in>set (chunk_list (snd (consume t stop_event 0 cs
                      (initial_state (started self t messages))))). has_delta x)
        then 1 else 0)"
  using consume_latch [OF initial_latch, of t stop_event 0 cs self messages]
  by (auto simp: latch_ok_def)

text \<open>
  C5 (as amended). With or without a token tracker, \<^verbatim>\<open>record_first_token\<close> is called at
  most once in an invocation. With a tracker it is called in the iteration that processes the
  first chunk whose reasoning or content delta is not \<^verbatim>\<open>None\<close> (an empty string counts):
  not before that chunk, once when it has been processed, and never again whatever follows.
  It is not called at all when no chunk carries such a delta, or without a tracker.
\<close>

theorem first_token_recorded_at_first_delta:
  "count_first (trace (call self tracked messages tr stop_event construct)) \<le> 1
   \<and> ((\<forall>x\<in>set pre. choices x \<noteq> [] \<and> \<not> has_delta x) \<and> (\<forall>i<length pre. \<not> stop_event i)
        \<and> has_delta c \<longrightarrow>
        count_first (calls (snd (consume True stop_event 0 pre
                                  (initial_state (started self True messages))))) = 0
      \<and> count_first (calls (snd (consume True stop_event 0 (pre @ [c])
                                  (initial_state (started self True messages))))) = 1
      \<and> count_first (trace (call self True messages (Stream (pre @ c # post) fault)
                               stop_event construct)) = 1)
   \<and> ((\<forall>x\<in>set cs. \<not> has_delta x) \<or> \<not> tracked \<longrightarrow>
        count_first (trace (call self tracked messages (Stream cs fault) stop_event construct))
          = 0)"
proof -
  let ?s0 = "initial_state (started self True messages)"
  have A: "count_first (trace (call self tracked messages tr stop_event construct)) \<le> 1"
  proof (cases tr)
    case (CreateFails e)
    then show ?thesis by (simp add: call_def started_def)
  next
    case (Stream cs' fault')
    then show ?thesis by (simp add: call_count_first count_first_processed)
  qed
  have C: "count_first (trace (call self tracked messages (Stream cs fault) stop_event construct))
             = 0"
    if "(\<forall>x\<in>set cs. \<not> has_delta x) \<or> \<not> tracked"
    using that consume_processed_subset [of tracked stop_event 0 cs
        "initial_state (started self tracked messages)"]
    by (auto simp: call_count_first count_first_processed)
  have B: "count_first (calls (snd (consume True stop_event 0 pre ?s0))) = 0
      \<and> count_first (calls (snd (consume True stop_event 0 (pre @ [c]) ?s0))) = 1
      \<and> count_first (trace (call self True messages (Stream (pre @ c # post) fault)
                               stop_event construct)) = 1"
    if p: "\<forall>x\<in>set pre. choices x \<noteq> [] \<and> \<not> has_delta x"
      and ns: "\<forall>i<length pre. \<not> stop_event i" and c: "has_delta c"
  proof -
    from p ns have "fst (consume True stop_event 0 pre ?s0) = None"
      by (simp add: consume_None_iff)
    then obtain s1 where c1: "consume True stop_event 0 pre ?s0 = (None, s1)"
      by (cases "consume True stop_event 0 pre ?s0") auto
    from consume_None_fields [OF c1] have cl1: "chunk_list s1 = pre" by simp
    from consume_latch [OF initial_latch, of True stop_event 0 pre self messages] c1
    have l1: "latch_ok True s1" by simp
    with cl1 p have f1: "\<not> first_token_received s1" and n1: "count_first (calls s1) = 0"
      by (auto simp: latch_ok_def)
    from c have cc: "choices c \<noteq> []" by (auto simp: has_delta_def)
    obtain r s2 where lb: "loop_body True (stop_event (length pre)) c s1 = (r, s2)"
      by (cases "loop_body True (stop_event (length pre)) c s1")
    from loop_body_latch [OF l1, of "stop_event (length pre)" c] lb
    have l2: "latch_ok True s2" by simp
    from loop_body_chunk_list [of True "stop_event (length pre)" c s1] lb cc cl1
    have cl2: "chunk_list s2 = pre @ [c]" by simp
    with l2 c have f2: "first_token_received s2" and n2: "count_first (calls s2) = 1"
      by (auto simp: latch_ok_def)
    have two: "consume True stop_event 0 (pre @ [c]) ?s0 = (r, s2)"
      using c1 lb by (cases r) (simp_all add: consume_append)
    have full: "first_token_received (snd (consume True stop_event 0 (pre @ c # post) ?s0))"
    proof -
      have "set (chunk_list s2) \<subseteq>
              set (chunk_list (snd (consume True stop_event 0 (pre @ c # post) ?s0)))"
      proof (cases r)
        case (Some e)
        with c1 lb show ?thesis by (simp add: consume_append)
      next
        case None
        obtain r3 s3 where c3: "consume True stop_event (Suc (length pre)) post s2 = (r3, s3)"
          by (cases "consume True stop_event (Suc (length pre)) post s2")
        have "set (chunk_list s2) \<subseteq> set (chunk_list s3)"
        proof -
          have "\<And>i s. set (chunk_list s) \<subseteq>
                  set (chunk_list (snd (consume True stop_event i post s)))"
          proof (induction post)
            case Nil
            then show ?case by simp
          next
            case (Cons x xs)
            obtain rx sx where lx: "loop_body True (stop_event i) x s = (rx, sx)"
              by (cases "loop_body True (stop_event i) x s")
            have "set (chunk_list s) \<subseteq> set (chunk_list sx)"
              using loop_body_chunk_list [of True "stop_event i" x s] lx
              by (auto split: if_splits)
            with Cons [of sx "Suc i"] lx show ?case by (cases rx) auto
          qed
          from this [of s2 "Suc (length pre)"] c3 show ?thesis by simp
        qed
        with None c1 lb c3 show ?thesis by (simp add: consume_append)
      qed
      with cl2 c
      have "\<exists>x\<in>set (chunk_list (snd (consume True stop_event 0 (pre @ c # post) ?s0))).
              has_delta x" by auto
      with consume_latch [OF initial_latch, of True stop_event 0 "pre @ c # post" self messages]
      show ?thesis by (simp add: latch_ok_def)
    qed
    from consume_latch [OF initial_latch, of True stop_event 0 "pre @ c # post" self messages]
      full
    have "count_first (calls (snd (consume True stop_event 0 (pre @ c # post) ?s0))) = 1"
      by (simp add: latch_ok_def)
    with c1 n1 two n2 show ?thesis by (simp add: call_count_first)
  qed
  from A B C show ?thesis by blast
qed


theorem first_token_recorded_at_first_delta_witness:
  "has_delta (content_chunk ''Hel'' None)
   \<and> count_first (trace (call fresh_model True []
         (Stream ([usage_chunk \<lparr>prompt_tokens = Some 5, completion_tokens = NoAttribute,
                    total_tokens = Some 7\<rparr>]
                  @ content_chunk ''Hel'' None # [content_chunk ''lo'' None]) None)
         never_set no_fault)) = 1"
proof -
  let ?u = "usage_chunk \<lparr>prompt_tokens = Some 5, completion_tokens = NoAttribute,
                    total_tokens = Some 7\<rparr>"
  have p: "\<forall>x\<in>set [?u]. choices x \<noteq> [] \<and> \<not> has_delta x"
    by (simp add: usage_chunk_def has_delta_def)
  have ns: "\<forall>i<length [?u]. \<not> never_set i" by (simp add: never_set_def)
  have c: "has_delta (content_chunk ''Hel'' None)"
    by (simp add: content_chunk_def has_delta_def)
  from first_token_recorded_at_first_delta [where pre = "[?u]" and stop_event = never_set
      and c = "content_chunk ''Hel'' None" and post = "[content_chunk ''lo'' None]"
      and self = fresh_model and messages = "[]" and fault = None and construct = no_fault]
    p ns c
  show ?thesis by blast
qed

text \<open>
  C5 fails as stated: the first chunk carries the role and an empty content delta, and the
  first token is recorded at that chunk, not at the first non-empty delta \<^verbatim>\<open>Hi\<close>.
\<close>

theorem first_token_recorded_at_empty_delta:
  "trace (call fresh_model True []
            (Stream [content_chunk [] (Some ''assistant''), content_chunk ''Hi'' None] None)
            never_set assistant_only)
     = [SpanEvent ''completion_started'' [], SetSpanAttributes ''m'' 0, SetModeThinking,
        RecordFirstToken, RecordToken [], AddModelNewToken [],
        RecordToken ''Hi'', AddModelNewToken ''Hi'',
        FlushRemainingTokens, RecordCompletion (Some 0) (Some 0),
        SpanEvent ''completion_finished''
          [(''total_duration'', AElapsed), (''output_length'', AInt 2), (''chunk_count'', AInt 2)]]"
  by (simp add: call_def for_loop_def initial_state_def started_def finalize_def emit_def
      extract_usage_def assistant_only_def Let_def never_set_def except_handler_def
      loop_body_def handle_token_def handle_reasoning_def record_first_def content_chunk_def
      fresh_model_def)

subsection \<open>Monitoring events\<close>

lemma record_first_calls: "prefix (calls s) (calls (record_first t s))"
  by (simp add: record_first_def)







lemma no_span_simps [simp]:
  "no_span []"
  "no_span (lg @ lg') = (no_span lg \<and> no_span lg')"
  "no_span (ev # lg) = ((case ev of SpanEvent n a \<Rightarrow> False | _ \<Rightarrow> True) \<and> no_span lg)"
  by (auto simp: no_span_def)












end
